theory Spec2Isabelle
  imports Main "HOL-Library.Sublist" "HOL-Library.AList"
begin

section \<open>Text files as Python reads and writes them\<close>

text \<open>
  The updater (\<^verbatim>\<open>update_fdroid.py\<close>) keeps its state in files under \<^verbatim>\<open>/data\<close>.
  A text file is modelled by its content, a \<open>string\<close>; characters stand for the code
  points 0 to 255. Local file operations succeed (the file system is ideal); the network
  and the external tools may fail, and their results are parameters of the model.
\<close>

abbreviation LF :: char where "LF \<equiv> CHR 0x0A"
abbreviation CR :: char where "CR \<equiv> CHR 0x0D"

text \<open>
  \<^verbatim>\<open>open(path, 'r')\<close> reads in universal-newlines mode: \<^verbatim>\<open>\r\n\<close> and a lone
  \<^verbatim>\<open>\r\<close> both arrive as \<^verbatim>\<open>\n\<close>. Writing on Linux leaves \<^verbatim>\<open>\n\<close> as it is.
\<close>

fun universal_newlines :: "string \<Rightarrow> string" where
  "universal_newlines [] = []"
| "universal_newlines [c] = (if c = CR then [LF] else [c])"
| "universal_newlines (c # d # ds) =
     (if c = CR \<and> d = LF then LF # universal_newlines ds
      else if c = CR then LF # universal_newlines (d # ds)
      else c # universal_newlines (d # ds))"

text \<open>
  \<^verbatim>\<open>f.readlines()\<close> on text already translated: every line keeps its \<^verbatim>\<open>\n\<close>; the last
  line has none when the text does not end with one.
\<close>

fun split_lines :: "string \<Rightarrow> string list" where
  "split_lines [] = []"
| "split_lines (c # cs) =
     (if c = LF then [LF] # split_lines cs
      else (case split_lines cs of [] \<Rightarrow> [[c]] | l # ls \<Rightarrow> (c # l) # ls))"

definition readlines :: "string \<Rightarrow> string list" where
  "readlines content = split_lines (universal_newlines content)"

text \<open>\<^verbatim>\<open>str.strip()\<close>: the characters Python counts as white space, below 256.\<close>

definition is_space :: "char \<Rightarrow> bool" where
  "is_space c \<longleftrightarrow> c \<in> set [CHR 0x09, CHR 0x0A, CHR 0x0B, CHR 0x0C, CHR 0x0D,
     CHR 0x1C, CHR 0x1D, CHR 0x1E, CHR 0x1F, CHR 0x20, CHR 0x85, CHR 0xA0]"

definition strip :: "string \<Rightarrow> string" where
  "strip s = rev (dropWhile is_space (rev (dropWhile is_space s)))"

section \<open>The configuration document and its temporary keystore block\<close>

definition marker :: string where
  "marker = ''--- TEMPORARY KEYSTORE CONFIG''"

text \<open>\<^verbatim>\<open>'--- TEMPORARY KEYSTORE CONFIG' in line\<close>\<close>

definition marker_in :: "string \<Rightarrow> bool" where
  "marker_in line \<longleftrightarrow> sublist marker line"

text \<open>\<^verbatim>\<open>any('--- TEMPORARY KEYSTORE CONFIG' in line for line in lines)\<close>\<close>

definition has_marker :: "string list \<Rightarrow> bool" where
  "has_marker lines \<longleftrightarrow> (\<exists>line \<in> set lines. marker_in line)"

text \<open>
  The rewrite used on entry and on exit: the file is opened with \<^verbatim>\<open>'w'\<close> and the lines
  are written back until the first one that holds the marker.
\<close>

definition write_until_marker :: "string list \<Rightarrow> string" where
  "write_until_marker lines = concat (takeWhile (\<lambda>line. \<not> marker_in line) lines)"

text \<open>Lines 307 to 316: clean up what a crashed run left behind.\<close>

definition cleanup_leftover :: "string \<Rightarrow> string" where
  "cleanup_leftover content =
     (let lines = readlines content
      in if has_marker lines then write_until_marker lines else content)"

text \<open>\<^verbatim>\<open>line.strip().startswith('keystore:')\<close>\<close>

definition keystore_line :: "string \<Rightarrow> bool" where
  "keystore_line line \<longleftrightarrow> prefix ''keystore:'' (strip line)"

definition has_keystore :: "string list \<Rightarrow> bool" where
  "has_keystore config_lines \<longleftrightarrow> (\<exists>line \<in> set config_lines. keystore_line line)"

text \<open>The block of lines 327 to 333; the three values come from the environment.\<close>

definition keystore_config :: "string \<Rightarrow> string \<Rightarrow> string \<Rightarrow> string" where
  "keystore_config key_alias keystore_pass key_pass =
     [LF] @ ''# --- TEMPORARY KEYSTORE CONFIG (AUTO-GENERATED) ---'' @ [LF] @
     ''keystore: /app/config/keystore.jks'' @ [LF] @
     ''repo_keyalias: '' @ key_alias @ [LF] @
     ''keystorepass: '' @ keystore_pass @ [LF] @
     ''keypass: '' @ key_pass @ [LF]"


text \<open>
  Two predicates on lists of lines, used to state what \<open>readlines\<close> returns: a line is
  not empty and holds no \<^verbatim>\<open>\n\<close> before its last character; all lines but the last
  end with \<^verbatim>\<open>\n\<close>.
\<close>

definition line_ok :: "string \<Rightarrow> bool" where
  "line_ok l \<longleftrightarrow> l \<noteq> [] \<and> LF \<notin> set (butlast l)"

fun lines_ok :: "string list \<Rightarrow> bool" where
  "lines_ok [] = True"
| "lines_ok [l] = line_ok l"
| "lines_ok (l # m # ls) = (line_ok l \<and> last l = LF \<and> lines_ok (m # ls))"

section \<open>The world of the updater\<close>

text \<open>Exceptions are values; \<open>Inl e\<close> and \<open>Some e\<close> stand for \<^verbatim>\<open>raise e\<close>.\<close>

datatype exn =
    HTTPError nat
  | URLError
  | JSONDecodeError
  | ValueError
  | TypeError
  | YAMLError
  | APKError
  | CalledProcessError "string list" nat

text \<open>
  \<^verbatim>\<open>log(message)\<close> prints a line. A line is kept with its text; where the source
  formats an exception or a number into the message, the entry keeps the value itself.
\<close>

datatype logline =
    Log string
  | LogExn string exn
  | LogInt string int string

text \<open>The calls a cycle makes, recorded in order (a ghost trace, not program state).\<close>

datatype call =
    Call_fetch_apks
  | Call_fetch_fastlane_metadata "string list"
  | Call_copy_resources
  | Call_run_fdroid_update bool
  | Call_apply_fastlane_metadata
  | Subprocess_run "string list"
  | Time_sleep int

text \<open>\<^verbatim>\<open>/app/config/repos.json\<close>\<close>

datatype repos_doc = Repos_absent | Repos_invalid | Repos "string list"

text \<open>
  \<^verbatim>\<open>/data/repo_package_map.json\<close>, up to JSON structure: absent, a complete document of
  a mapping (a Python dict keeps insertion order, so an association list), or a document
  cut off before its end, of which the listed entries are still complete. \<^verbatim>\<open>json.load\<close>
  raises on a cut-off document; the empty file is \<open>Cut_off []\<close>.
\<close>

datatype map_doc = Map_absent | Cut_off "(string \<times> string) list" | Holds "(string \<times> string) list"

text \<open>
  A metadata file \<^verbatim>\<open>/data/metadata/<package>.yml\<close>, as \<^verbatim>\<open>yaml.safe_load\<close> sees it:
  not parseable, a falsy value (an empty file loads as \<^verbatim>\<open>None\<close>), a mapping, or another
  truthy value (a list, a scalar). Values of a mapping are kept as text.
\<close>

datatype yaml_doc = Y_invalid | Y_falsy | Y_dict "(string \<times> string) list" | Y_other

record asset =
  asset_name :: string
  browser_download_url :: string

record world =
  repos_json :: repos_doc
  repo_dir :: "string list"
  map_json :: map_doc
  staged :: "(string \<times> (string \<times> string) list) list"
  metadata :: "string \<rightharpoonup> yaml_doc"
  assets :: "(string \<times> string) list"
  config_src :: "string option"
  config_dst :: "string option"
  logged :: "logline list"
  trace :: "call list"

text \<open>
  \<open>repo_dir\<close>: the file names under \<^verbatim>\<open>/data/repo\<close>. \<open>staged\<close>: the directories
  \<^verbatim>\<open>/data/.temp_metadata_*\<close> in the order \<^verbatim>\<open>glob\<close> lists them, each with its files
  (relative path and content). \<open>metadata\<close>: the metadata file of each package.
  \<open>assets\<close>: the files under \<^verbatim>\<open>/data/metadata/<package>/en-US\<close>, by relative path.
  \<open>config_src\<close> is \<^verbatim>\<open>/app/config/config.yml\<close>, \<open>config_dst\<close> is \<^verbatim>\<open>/data/config.yml\<close>.

  What the program cannot decide is a parameter: the answers of the release host and of
  the raw-content host by URL, what inspecting a downloaded artifact gives, whether PyYAML
  could be imported, the three environment variables, and what the external tool does (its
  exit status in the pass with the given \<open>sign\<close> flag, and its writes to the metadata
  directory).
\<close>

record env =
  api_latest_release :: "string \<Rightarrow> exn + asset list"
  http_get :: "string \<Rightarrow> exn + string"
  apk_package :: "string \<Rightarrow> exn + string"
  yaml_installed :: bool
  key_alias :: string
  keystore_pass :: string
  key_pass :: string
  fdroid_update_rc :: "bool \<Rightarrow> nat"
  fdroid_signindex_rc :: nat
  fdroid_update_writes :: "(string \<rightharpoonup> yaml_doc) \<Rightarrow> (string \<rightharpoonup> yaml_doc)"

definition log :: "logline \<Rightarrow> world \<Rightarrow> world" where
  "log message w = w\<lparr>logged := logged w @ [message]\<rparr>"

definition called :: "call \<Rightarrow> world \<Rightarrow> world" where
  "called c w = w\<lparr>trace := trace w @ [c]\<rparr>"

text \<open>A \<^verbatim>\<open>for\<close> loop whose body may raise: the first exception ends the loop.\<close>

fun for_each :: "('a \<Rightarrow> 's \<Rightarrow> exn option \<times> 's) \<Rightarrow> 'a list \<Rightarrow> 's \<Rightarrow> exn option \<times> 's" where
  "for_each body [] s = (None, s)"
| "for_each body (x # xs) s =
     (case body x s of
        (Some e, s') \<Rightarrow> (Some e, s')
      | (None, s') \<Rightarrow> for_each body xs s')"

text \<open>\<^verbatim>\<open>s.split(sep)\<close> for a one-character separator.\<close>

fun split_on :: "char \<Rightarrow> string \<Rightarrow> string list" where
  "split_on sep [] = [[]]"
| "split_on sep (c # cs) =
     (if c = sep then [] # split_on sep cs
      else (case split_on sep cs of [] \<Rightarrow> [[c]] | p # ps \<Rightarrow> (c # p) # ps))"

text \<open>\<^verbatim>\<open>s.replace(old, new)\<close>; the source calls it with a non-empty \<open>old\<close> only.\<close>

fun str_replace :: "string \<Rightarrow> string \<Rightarrow> string \<Rightarrow> string" where
  "str_replace old new [] = []"
| "str_replace old new (c # cs) =
     (if old \<noteq> [] \<and> prefix old (c # cs)
      then new @ str_replace old new (drop (length old - 1) cs)
      else c # str_replace old new cs)"

section \<open>\<^verbatim>\<open>fetch_apks\<close>\<close>

text \<open>
  The state of the loops of \<^verbatim>\<open>fetch_apks\<close>: the local variables \<^verbatim>\<open>downloaded\<close> and
  \<^verbatim>\<open>repo_package_map\<close>, and the world. Assigning to a key of a Python dict is
  \<open>AList.update\<close>: a present key keeps its place, a new one goes last.
\<close>

type_synonym fetch_state = "bool \<times> (string \<times> string) list \<times> world"

text \<open>
  Lines 81 to 87: an artifact already in the repository directory is skipped, another one
  is downloaded; \<^verbatim>\<open>urlretrieve\<close> may raise.
\<close>

definition download_asset :: "env \<Rightarrow> string \<Rightarrow> string \<Rightarrow> bool \<Rightarrow> world \<Rightarrow> exn option \<times> bool \<times> world" where
  "download_asset E filename download_url downloaded w =
     (if filename \<in> set (repo_dir w)
      then (None, downloaded, log (Log (''  '' @ filename @ '' already exists, skipping'')) w)
      else
        let w1 = log (Log (''  Downloading '' @ filename @ ''...'')) w
        in case http_get E download_url of
             Inl e \<Rightarrow> (Some e, downloaded, w1)
           | Inr content \<Rightarrow>
               (None, True,
                log (Log (''  Downloaded '' @ filename)) (w1\<lparr>repo_dir := repo_dir w1 @ [filename]\<rparr>)))"

text \<open>
  Lines 90 to 97: the package name is extracted only for a repository that has no entry
  yet; a failure of the inspection is logged and goes no further.
\<close>

definition map_asset :: "env \<Rightarrow> string \<Rightarrow> string \<Rightarrow> (string \<times> string) list \<Rightarrow> world
    \<Rightarrow> (string \<times> string) list \<times> world" where
  "map_asset E repo filename repo_package_map w =
     (if repo \<notin> fst ` set repo_package_map \<and> filename \<in> set (repo_dir w)
      then (case apk_package E filename of
              Inr package_name \<Rightarrow>
                (AList.update repo package_name repo_package_map,
                 log (Log (''  Mapped '' @ repo @ '' to '' @ package_name)) w)
            | Inl e \<Rightarrow>
                (repo_package_map,
                 log (LogExn (''  WARNING: Failed to extract package name from ''
                        @ filename @ '': '') e) w))
      else (repo_package_map, w))"

text \<open>The body of the loop over the assets of a release, lines 73 to 97.\<close>

fun fetch_asset :: "env \<Rightarrow> string \<Rightarrow> asset \<Rightarrow> fetch_state \<Rightarrow> exn option \<times> fetch_state" where
  "fetch_asset E repo a (downloaded, repo_package_map, w) =
     (if \<not> suffix ''.apk'' (asset_name a) then (None, (downloaded, repo_package_map, w))
      else
        let filename = asset_name a;
            download_url = browser_download_url a
        in case download_asset E filename download_url downloaded w of
             (Some e, downloaded1, w1) \<Rightarrow> (Some e, (downloaded1, repo_package_map, w1))
           | (None, downloaded1, w1) \<Rightarrow>
               (case map_asset E repo filename repo_package_map w1 of
                  (repo_package_map1, w2) \<Rightarrow> (None, (downloaded1, repo_package_map1, w2))))"

text \<open>
  The two handlers of lines 99 to 103. They end the work on this repository; what was
  downloaded and mapped before the exception stays.
\<close>

definition fetch_failed :: "string \<Rightarrow> exn \<Rightarrow> world \<Rightarrow> world" where
  "fetch_failed repo e w =
     (case e of
        HTTPError code \<Rightarrow>
          log (LogInt (''ERROR: Failed to fetch '' @ repo @ '': HTTP '') (int code) []) w
      | _ \<Rightarrow> log (LogExn (''ERROR: Failed to process '' @ repo @ '': '') e) w)"

text \<open>The body of the loop over the repositories, lines 57 to 103.\<close>

fun check_repo :: "env \<Rightarrow> string \<Rightarrow> fetch_state \<Rightarrow> fetch_state" where
  "check_repo E repo (downloaded, repo_package_map, w) =
     (let w1 = log (Log (''Checking '' @ repo @ ''...'')) w;
          url = ''https://api.github.com/repos/'' @ repo @ ''/releases/latest''
      in case api_latest_release E url of
           Inl e \<Rightarrow> (downloaded, repo_package_map, fetch_failed repo e w1)
         | Inr found \<Rightarrow>
             (case for_each (fetch_asset E repo) found (downloaded, repo_package_map, w1) of
                (None, st') \<Rightarrow> st'
              | (Some e, (downloaded', repo_package_map', w')) \<Rightarrow>
                  (downloaded', repo_package_map', fetch_failed repo e w')))"

text \<open>
  Lines 49 to 55: the mapping the run starts from. A missing file and a document that
  \<^verbatim>\<open>json.load\<close> rejects both leave the empty dict.
\<close>

definition load_map :: "map_doc \<Rightarrow> (string \<times> string) list" where
  "load_map doc = (case doc of Holds m \<Rightarrow> m | Cut_off m \<Rightarrow> [] | Map_absent \<Rightarrow> [])"

text \<open>
  Lines 106 to 108: \<^verbatim>\<open>open(map_file, 'w')\<close> empties the mapping file, then
  \<^verbatim>\<open>json.dump\<close> writes the document into that same file, which is complete when the
  file is closed. These are the contents the file has on the way, in order.
\<close>

definition save_map :: "(string \<times> string) list \<Rightarrow> map_doc list" where
  "save_map repo_package_map = [Cut_off [], Holds repo_package_map]"

definition fetch_apks :: "env \<Rightarrow> world \<Rightarrow> (exn + bool \<times> string list) \<times> world" where
  "fetch_apks E w0 =
     (let w = called Call_fetch_apks w0
      in case repos_json w of
           Repos_absent \<Rightarrow> (Inr (False, []), log (Log ''ERROR: repos.json not found'') w)
         | Repos_invalid \<Rightarrow> (Inl JSONDecodeError, w)
         | Repos repos \<Rightarrow>
             (case fold (check_repo E) repos (False, load_map (map_json w), w) of
                (downloaded, repo_package_map, w1) \<Rightarrow>
                  (Inr (downloaded, repos), w1\<lparr>map_json := last (save_map repo_package_map)\<rparr>)))"

section \<open>\<^verbatim>\<open>fetch_fastlane_metadata\<close>\<close>

text \<open>The check mark of the log lines, in UTF-8.\<close>

definition check_mark :: string where
  "check_mark = [CHR 0xE2, CHR 0x9C, CHR 0x93]"

definition files_of :: "string \<Rightarrow> world \<Rightarrow> (string \<times> string) list" where
  "files_of dir w = (case map_of (staged w) dir of None \<Rightarrow> [] | Some files \<Rightarrow> files)"

text \<open>\<^verbatim>\<open>temp_metadata.mkdir(parents=True, exist_ok=True)\<close>\<close>

definition mkdir_staged :: "string \<Rightarrow> world \<Rightarrow> world" where
  "mkdir_staged dir w = w\<lparr>staged := AList.update dir (files_of dir w) (staged w)\<rparr>"

definition write_staged :: "string \<Rightarrow> string \<Rightarrow> string \<Rightarrow> world \<Rightarrow> world" where
  "write_staged dir path content w =
     w\<lparr>staged := AList.update dir (AList.update path content (files_of dir w)) (staged w)\<rparr>"

text \<open>The body of the loop over \<^verbatim>\<open>downloads.items()\<close>, lines 146 to 156.\<close>

fun fetch_basic :: "env \<Rightarrow> string \<Rightarrow> string \<Rightarrow> string \<times> string \<Rightarrow> world \<Rightarrow> world" where
  "fetch_basic E dir title (name, url) w =
     (if name = ''title.txt''
      then log (Log (''    '' @ check_mark @ '' '' @ name)) (write_staged dir name title w)
      else (case http_get E url of
              Inl e \<Rightarrow> w
            | Inr content \<Rightarrow>
                log (Log (''    '' @ check_mark @ '' '' @ name)) (write_staged dir name content w)))"

text \<open>The loop over \<^verbatim>\<open>range(1, 9)\<close>, lines 162 to 168: the first failure ends it.\<close>

fun fetch_screenshots :: "env \<Rightarrow> string \<Rightarrow> string \<Rightarrow> string list \<Rightarrow> world \<Rightarrow> world" where
  "fetch_screenshots E dir base_url [] w = w"
| "fetch_screenshots E dir base_url (i # rest) w =
     (case http_get E (base_url @ ''/images/phoneScreenshots/'' @ i @ ''.png'') of
        Inl e \<Rightarrow> w
      | Inr content \<Rightarrow>
          fetch_screenshots E dir base_url rest
            (log (Log (''    '' @ check_mark @ '' screenshot '' @ i @ ''.png''))
               (write_staged dir (''phoneScreenshots/'' @ i @ ''.png'') content w)))"

text \<open>\<^verbatim>\<open>str(i)\<close> for \<^verbatim>\<open>i\<close> in \<^verbatim>\<open>range(1, 9)\<close>\<close>

definition screenshot_numbers :: "string list" where
  "screenshot_numbers = map (\<lambda>i. [char_of (48 + i)]) [1..<9]"

text \<open>Lines 132 to 168: the title was found on this branch, the bundle is staged.\<close>

definition stage_bundle :: "env \<Rightarrow> string \<Rightarrow> string \<Rightarrow> string \<Rightarrow> string \<Rightarrow> string \<Rightarrow> world \<Rightarrow> world" where
  "stage_bundle E owner repo_name branch base_url title w =
     (let w1 = log (Log (''  Found fastlane metadata on '' @ branch @ '' branch'')) w;
          temp_metadata = ''.temp_metadata_'' @ owner @ ''_'' @ repo_name;
          w2 = mkdir_staged temp_metadata w1;
          downloads = [(''title.txt'', base_url @ ''/title.txt''),
                       (''short_description.txt'', base_url @ ''/short_description.txt''),
                       (''full_description.txt'', base_url @ ''/full_description.txt''),
                       (''icon.png'', base_url @ ''/images/icon.png'')];
          w3 = fold (fetch_basic E temp_metadata title) downloads w2
      in fetch_screenshots E temp_metadata base_url screenshot_numbers w3)"

text \<open>
  The loop over the branches, lines 121 to 179, with its \<^verbatim>\<open>else\<close> branch for the case
  that no branch ended in \<^verbatim>\<open>break\<close>.
\<close>

fun try_branches :: "env \<Rightarrow> string \<Rightarrow> string \<Rightarrow> string list \<Rightarrow> world \<Rightarrow> world" where
  "try_branches E owner repo_name [] w = log (Log ''  No fastlane metadata found'') w"
| "try_branches E owner repo_name (branch # rest) w =
     (let base_url = ''https://raw.githubusercontent.com/'' @ owner @ ''/'' @ repo_name @ ''/''
                       @ branch @ ''/fastlane/metadata/android/en-US''
      in case http_get E (base_url @ ''/title.txt'') of
           Inr body \<Rightarrow> stage_bundle E owner repo_name branch base_url (strip body) w
         | Inl (HTTPError code) \<Rightarrow>
             try_branches E owner repo_name rest
               (if code \<noteq> 404 then log (LogInt ''  ERROR: HTTP '' (int code) []) w else w)
         | Inl e \<Rightarrow> try_branches E owner repo_name rest (log (LogExn ''  ERROR: '' e) w))"

text \<open>
  The body of the loop over the repositories. \<^verbatim>\<open>owner, repo_name = repo.split('/')\<close>
  raises \<^verbatim>\<open>ValueError\<close> unless the split gives two parts, and nothing catches it here.
\<close>

definition harvest_repo :: "env \<Rightarrow> string \<Rightarrow> world \<Rightarrow> exn option \<times> world" where
  "harvest_repo E repo w =
     (let w1 = log (Log (''Fetching metadata for '' @ repo @ ''...'')) w
      in case split_on (CHR ''/'') repo of
           [owner, repo_name] \<Rightarrow> (None, try_branches E owner repo_name [''main'', ''master''] w1)
         | _ \<Rightarrow> (Some ValueError, w1))"

definition fetch_fastlane_metadata :: "env \<Rightarrow> string list \<Rightarrow> world \<Rightarrow> exn option \<times> world" where
  "fetch_fastlane_metadata E repos w =
     for_each (harvest_repo E) repos (called (Call_fetch_fastlane_metadata repos) w)"

section \<open>\<^verbatim>\<open>apply_fastlane_metadata\<close>\<close>

text \<open>
  Lines 203 to 208: the first entry of the mapping whose repository, with \<^verbatim>\<open>/\<close>
  replaced by \<^verbatim>\<open>_\<close>, is the directory name. The loop variable \<^verbatim>\<open>repo_slug\<close> keeps the
  key of that entry after the \<^verbatim>\<open>break\<close>.
\<close>

definition match_bundle :: "(string \<times> string) list \<Rightarrow> string \<Rightarrow> (string \<times> string) option" where
  "match_bundle repo_package_map dir_name =
     find (\<lambda>(repo_slug, package_id). dir_name = str_replace ''/'' ''_'' repo_slug) repo_package_map"

text \<open>\<^verbatim>\<open>yaml.safe_load(f) or {}\<close>\<close>

definition load_record :: "yaml_doc \<Rightarrow> exn + yaml_doc" where
  "load_record doc =
     (case doc of
        Y_invalid \<Rightarrow> Inl YAMLError
      | Y_falsy \<Rightarrow> Inr (Y_dict [])
      | Y_dict d \<Rightarrow> Inr (Y_dict d)
      | Y_other \<Rightarrow> Inr Y_other)"

text \<open>\<^verbatim>\<open>data[field] = value\<close>: a value that is not a mapping raises \<^verbatim>\<open>TypeError\<close>.\<close>

definition set_item :: "string \<Rightarrow> string \<Rightarrow> yaml_doc \<Rightarrow> exn + yaml_doc" where
  "set_item field v data =
     (case data of Y_dict d \<Rightarrow> Inr (Y_dict (AList.update field v d)) | _ \<Rightarrow> Inl TypeError)"

text \<open>The loop of lines 226 to 232 over the three text files of the bundle.\<close>

fun update_fields :: "(string \<times> string) list \<Rightarrow> (string \<times> string) list \<Rightarrow> yaml_doc \<Rightarrow> exn + yaml_doc" where
  "update_fields files [] data = Inr data"
| "update_fields files ((filename, field) # rest) data =
     (case map_of files filename of
        None \<Rightarrow> update_fields files rest data
      | Some content \<Rightarrow>
          (case set_item field (strip content) data of
             Inl e \<Rightarrow> Inl e
           | Inr data' \<Rightarrow> update_fields files rest data'))"

fun set_items :: "(string \<times> string) list \<Rightarrow> yaml_doc \<Rightarrow> exn + yaml_doc" where
  "set_items [] data = Inr data"
| "set_items ((field, v) # rest) data =
     (case set_item field v data of Inl e \<Rightarrow> Inl e | Inr data' \<Rightarrow> set_items rest data')"

text \<open>Lines 235 to 240: the fields derived from the repository.\<close>

definition repo_fields :: "string \<Rightarrow> yaml_doc \<Rightarrow> exn + yaml_doc" where
  "repo_fields repo_slug data =
     (if repo_slug \<noteq> []
      then set_items
             [(''AuthorName'', hd (split_on (CHR ''/'') repo_slug)),
              (''SourceCode'', ''https://github.com/'' @ repo_slug),
              (''WebSite'', ''https://github.com/'' @ repo_slug),
              (''IssueTracker'', ''https://github.com/'' @ repo_slug @ ''/issues'')] data
      else Inr data)"

text \<open>Lines 222 to 240: what \<^verbatim>\<open>yaml.dump\<close> is given, or the exception raised before.\<close>

definition merged_record :: "string \<Rightarrow> (string \<times> string) list \<Rightarrow> yaml_doc \<Rightarrow> exn + yaml_doc" where
  "merged_record repo_slug files doc =
     (case load_record doc of
        Inl e \<Rightarrow> Inl e
      | Inr data \<Rightarrow>
          (case update_fields files
                  [(''title.txt'', ''Name''),
                   (''short_description.txt'', ''Summary''),
                   (''full_description.txt'', ''Description'')] data of
             Inl e \<Rightarrow> Inl e
           | Inr data' \<Rightarrow> repo_fields repo_slug data'))"

text \<open>
  Lines 246 to 257: the icon and the screenshots (\<^verbatim>\<open>glob('*.png')\<close> in the directory
  \<^verbatim>\<open>phoneScreenshots\<close>) are copied below \<^verbatim>\<open><package>/en-US\<close>.
\<close>

definition is_screenshot :: "string \<Rightarrow> bool" where
  "is_screenshot path \<longleftrightarrow>
     prefix ''phoneScreenshots/'' path \<and> suffix ''.png'' path \<and>
     CHR ''/'' \<notin> set (drop (length ''phoneScreenshots/'') path)"

definition copy_assets :: "string \<Rightarrow> (string \<times> string) list \<Rightarrow> world \<Rightarrow> world" where
  "copy_assets matched_package files w =
     w\<lparr>assets :=
         fold (\<lambda>(path, content). AList.update (matched_package @ ''/en-US/'' @ path) content)
           (filter (\<lambda>(path, content). path = ''icon.png'') files @
            filter (\<lambda>(path, content). is_screenshot path) files)
           (assets w)\<rparr>"

text \<open>The body of the loop over the staged directories, lines 199 to 264.\<close>

fun process_bundle :: "(string \<times> string) list \<Rightarrow> string \<times> (string \<times> string) list \<Rightarrow> world \<Rightarrow> world" where
  "process_bundle repo_package_map (name, files) w =
     (let dir_name = str_replace ''.temp_metadata_'' [] name
      in case match_bundle repo_package_map dir_name of
           None \<Rightarrow>
             log (Log (''WARNING: Could not match temp dir '' @ dir_name
                    @ '' to a package ID. Skipping.'')) w
         | Some (repo_slug, matched_package) \<Rightarrow>
             if matched_package = []
             then log (Log (''WARNING: Could not match temp dir '' @ dir_name
                         @ '' to a package ID. Skipping.'')) w
             else
               let w1 = log (Log (''Applying metadata for '' @ matched_package @ ''...'')) w
               in (case metadata w1 matched_package of
                     None \<Rightarrow>
                       log (Log (''  WARNING: Metadata file /data/metadata/'' @ matched_package
                              @ ''.yml not found'')) w1
                   | Some doc \<Rightarrow>
                       (case merged_record repo_slug files doc of
                          Inl e \<Rightarrow> log (LogExn ''  ERROR applying metadata: '' e) w1
                        | Inr data \<Rightarrow>
                            log (Log (''  Applied metadata to '' @ matched_package))
                              (copy_assets matched_package files
                                 (w1\<lparr>metadata := (metadata w1)(matched_package \<mapsto> data)\<rparr>)))))"

text \<open>
  Without PyYAML the function returns at once (lines 185 to 187). Else every staged
  directory is processed, and all of them are removed at the end (lines 266 to 268).
\<close>

definition apply_fastlane_metadata :: "env \<Rightarrow> world \<Rightarrow> world" where
  "apply_fastlane_metadata E w0 =
     (let w = called Call_apply_fastlane_metadata w0
      in if \<not> yaml_installed E
         then log (Log ''WARNING: PyYAML not installed, skipping metadata application'') w
         else
           let repo_package_map = load_map (map_json w);
               w1 = fold (process_bundle repo_package_map) (staged w) w
           in w1\<lparr>staged := []\<rparr>)"

section \<open>\<^verbatim>\<open>copy_resources\<close>\<close>

text \<open>
  The tree under \<^verbatim>\<open>/app/config/resources\<close> is copied below \<^verbatim>\<open>/data\<close>. The model keeps
  the call and takes the tree to hold none of the files of the world.
\<close>

definition copy_resources :: "world \<Rightarrow> world" where
  "copy_resources w = called Call_copy_resources w"

section \<open>\<^verbatim>\<open>run_fdroid_update\<close>\<close>

text \<open>\<^verbatim>\<open>subprocess.run(cmd, check=True)\<close>: an exit status other than zero raises.\<close>

definition subprocess_run :: "string list \<Rightarrow> nat \<Rightarrow> world \<Rightarrow> exn option \<times> world" where
  "subprocess_run cmd rc w =
     (if rc = 0 then None else Some (CalledProcessError cmd rc), called (Subprocess_run cmd) w)"

text \<open>The two commands of lines 340 and 344.\<close>

definition update_cmd :: "string list" where
  "update_cmd = [''fdroid'', ''update'', ''-q'', ''--create-metadata'', ''--pretty'']"

definition signindex_cmd :: "string list" where
  "signindex_cmd = [''fdroid'', ''signindex'', ''-q'']"

text \<open>The body of the \<^verbatim>\<open>try\<close>, lines 339 to 345.\<close>

definition build_and_sign :: "bool \<Rightarrow> env \<Rightarrow> world \<Rightarrow> exn option \<times> world" where
  "build_and_sign sign E w =
     (let w1 = log (Log ''Running fdroid update...'') w;
          w2 = w1\<lparr>metadata := fdroid_update_writes E (metadata w1)\<rparr>
      in case subprocess_run update_cmd (fdroid_update_rc E sign) w2 of
           (Some e, w3) \<Rightarrow> (Some e, w3)
         | (None, w3) \<Rightarrow>
             if sign
             then (case subprocess_run signindex_cmd (fdroid_signindex_rc E)
                          (log (Log ''Signing index...'') w3) of
                     (Some e, w4) \<Rightarrow> (Some e, w4)
                   | (None, w4) \<Rightarrow> (None, log (Log ''F-Droid index signed and ready!'') w4))
             else (None, w3))"

text \<open>
  Lines 307 to 356 on the content of \<^verbatim>\<open>/data/config.yml\<close>: the clean-up on entry, the
  keystore block appended when no line starts with \<^verbatim>\<open>keystore:\<close>, the build, and in the
  \<^verbatim>\<open>finally\<close> part the rewrite up to the marker when the block was appended. The
  external tool is taken to leave the file alone.
\<close>

definition patched_build :: "bool \<Rightarrow> env \<Rightarrow> string \<Rightarrow> world \<Rightarrow> exn option \<times> world" where
  "patched_build sign E content w =
     (let w1 = (if has_marker (readlines content)
                then log (Log ''Cleaning up left-over temporary config from previous run...'') w
                else w);
          content1 = cleanup_leftover content;
          config_lines = readlines content1;
          added_config = (\<not> has_keystore config_lines);
          content2 = (if added_config
                      then content1 @ keystore_config (key_alias E) (keystore_pass E) (key_pass E)
                      else content1);
          w2 = w1\<lparr>config_dst := Some content2\<rparr>
      in case build_and_sign sign E w2 of
           (raised, w3) \<Rightarrow>
             (raised,
              if added_config
              then w3\<lparr>config_dst := Some (write_until_marker (readlines content2))\<rparr>
              else w3))"

text \<open>
  Lines 293 to 305: the configuration is copied into place when it is missing; without
  it the function logs an error and returns.
\<close>

definition run_fdroid_update :: "bool \<Rightarrow> env \<Rightarrow> world \<Rightarrow> exn option \<times> world" where
  "run_fdroid_update sign E w0 =
     (let w = called (Call_run_fdroid_update sign) w0;
          w1 = (if config_dst w = None \<and> config_src w \<noteq> None
                then w\<lparr>config_dst := config_src w\<rparr> else w)
      in case config_dst w1 of
           None \<Rightarrow> (None, log (Log ''ERROR: config.yml not found, cannot proceed with update'') w1)
         | Some content \<Rightarrow> patched_build sign E content w1)"

section \<open>\<^verbatim>\<open>main\<close>\<close>

text \<open>The body of the \<^verbatim>\<open>try\<close> of one cycle, lines 370 to 398.\<close>

definition update_check :: "env \<Rightarrow> world \<Rightarrow> exn option \<times> world" where
  "update_check E w =
     (case fetch_apks E (log (Log ''Starting update check...'') w) of
        (Inl e, w1) \<Rightarrow> (Some e, w1)
      | (Inr (downloaded, repos), w1) \<Rightarrow>
          if downloaded
          then (case fetch_fastlane_metadata E repos
                       (log (Log ''New APKs found. Starting Two-Pass Update Process...'') w1) of
                  (Some e, w2) \<Rightarrow> (Some e, w2)
                | (None, w2) \<Rightarrow>
                    (case run_fdroid_update False E
                            (log (Log ''--- Pass 1: Generating metadata skeletons ---'')
                               (copy_resources w2)) of
                       (Some e, w3) \<Rightarrow> (Some e, w3)
                     | (None, w3) \<Rightarrow>
                         (case run_fdroid_update True E
                                 (log (Log ''--- Pass 2: Building final index ---'')
                                    (apply_fastlane_metadata E w3)) of
                            (Some e, w4) \<Rightarrow> (Some e, w4)
                          | (None, w4) \<Rightarrow> (None, log (Log ''Update check complete.'') w4))))
          else (None, log (Log ''Update check complete.'') (log (Log ''No new APKs found.'') w1)))"

text \<open>\<^verbatim>\<open>time.sleep(secs)\<close> raises \<^verbatim>\<open>ValueError\<close> for a negative length.\<close>

definition time_sleep :: "int \<Rightarrow> world \<Rightarrow> exn option \<times> world" where
  "time_sleep secs w = (if secs < 0 then Some ValueError else None, called (Time_sleep secs) w)"

text \<open>
  One pass through the body of \<^verbatim>\<open>while True\<close>: the update check inside its handler
  for \<^verbatim>\<open>Exception\<close>, then the sleep, which is outside of it.
\<close>

definition iteration :: "env \<Rightarrow> int \<Rightarrow> world \<Rightarrow> exn option \<times> world" where
  "iteration E poll_interval w =
     (let w2 = (case update_check E w of
                  (None, w1) \<Rightarrow> w1
                | (Some e, w1) \<Rightarrow> log (LogExn ''ERROR: Main loop crashed: '' e) w1)
      in time_sleep poll_interval (log (LogInt ''Sleeping for '' poll_interval '' seconds...'') w2))"

text \<open>
  The loop itself. The answers of the outside differ from cycle to cycle: \<open>envs k\<close> are
  those of cycle \<open>k\<close>. The result is the exception that ends the process and the world it
  leaves; \<open>None\<close> means that the loop never ends.
\<close>

partial_function (option) main_loop :: "(nat \<Rightarrow> env) \<Rightarrow> int \<Rightarrow> nat \<Rightarrow> world \<Rightarrow> (exn \<times> world) option" where
  "main_loop envs poll_interval k w =
     (case iteration (envs k) poll_interval w of
        (Some e, w') \<Rightarrow> Some (e, w')
      | (None, w') \<Rightarrow> main_loop envs poll_interval (Suc k) w')"

text \<open>
  \<open>poll_interval\<close> is the value of lines 361 to 364, the integer read from
  \<^verbatim>\<open>POLL_INTERVAL\<close> or 900.
\<close>

definition main :: "(nat \<Rightarrow> env) \<Rightarrow> int \<Rightarrow> world \<Rightarrow> (exn \<times> world) option" where
  "main envs poll_interval w =
     main_loop envs poll_interval 0
       (log (LogInt ''Poll interval set to '' poll_interval '' seconds'')
          (log (Log ''Starting F-Droid updater service...'') w))"

section \<open>Auxiliary definitions\<close>

text \<open>The second line of the keystore block, the one that holds the marker.\<close>

definition marker_line :: string where
  "marker_line = ''# --- TEMPORARY KEYSTORE CONFIG (AUTO-GENERATED) ---'' @ [LF]"

text \<open>
  What a build invocation leaves in \<^verbatim>\<open>/data/config.yml\<close> when the file held
  \<open>content\<close> before: the cleaned content when it has a \<^verbatim>\<open>keystore:\<close> line of its own,
  else what the rewrite up to the marker gives after the block had been appended.
\<close>

definition restored :: "string \<Rightarrow> string" where
  "restored content =
     (let content1 = cleanup_leftover content
      in if has_keystore (readlines content1) then content1
         else universal_newlines (content1 @ [LF]))"

section \<open>Example inputs\<close>

text \<open>A configuration without keystore settings, and a world that holds it.\<close>

definition demo_config :: string where
  "demo_config = ''repo_name: demo'' @ [LF]"

definition demo_world :: world where
  "demo_world = \<lparr>repos_json = Repos [], repo_dir = [], map_json = Map_absent, staged = [],
     metadata = Map.empty, assets = [], config_src = None, config_dst = Some demo_config,
     logged = [], trace = []\<rparr>"

text \<open>
  The same configuration as a run leaves it when the process is killed during the build:
  the keystore block is still there.
\<close>

definition crashed_config :: string where
  "crashed_config = demo_config @ keystore_config ''release'' ''secret1'' ''secret2''"

text \<open>An outside where every request fails and \<^verbatim>\<open>fdroid update\<close> exits with status 1.\<close>

definition failing_env :: env where
  "failing_env = \<lparr>api_latest_release = (\<lambda>url. Inl URLError), http_get = (\<lambda>url. Inl URLError),
     apk_package = (\<lambda>filename. Inl APKError), yaml_installed = True,
     key_alias = ''release'', keystore_pass = ''secret1'', key_pass = ''secret2'',
     fdroid_update_rc = (\<lambda>sign. 1), fdroid_signindex_rc = 0,
     fdroid_update_writes = (\<lambda>m. m)\<rparr>"


definition harvest_frame :: "world \<Rightarrow> world \<Rightarrow> bool" where
  "harvest_frame w w' \<longleftrightarrow>
     w' = w\<lparr>staged := staged w', logged := logged w'\<rparr> \<and> prefix (logged w) (logged w')"

text \<open>
  The entries that can be read in the text of the mapping file, whether or not
  \<^verbatim>\<open>json.load\<close> accepts the document.
\<close>

definition persisted :: "map_doc \<Rightarrow> (string \<times> string) list" where
  "persisted doc = (case doc of Holds m \<Rightarrow> m | Cut_off m \<Rightarrow> m | Map_absent \<Rightarrow> [])"

text \<open>A repository identifier that \<^verbatim>\<open>repo.split('/')\<close> cuts into two parts.\<close>

definition well_formed :: "string \<Rightarrow> bool" where
  "well_formed repo \<longleftrightarrow> length (split_on (CHR ''/'') repo) = 2"

text \<open>
  One configured repository whose mapping file was cut off during an earlier save, after
  the entry of that repository.
\<close>

definition cut_world :: world where
  "cut_world = demo_world\<lparr>repos_json := Repos [''o/a''],
     map_json := Cut_off [(''o/a'', ''com.example.app'')]\<rparr>"

text \<open>
  What the loop of \<^verbatim>\<open>apply_fastlane_metadata\<close> may change: the metadata files, the
  published assets and the log.
\<close>

definition apply_frame :: "world \<Rightarrow> world \<Rightarrow> bool" where
  "apply_frame w w' \<longleftrightarrow>
     w' = w\<lparr>metadata := metadata w', assets := assets w', logged := logged w'\<rparr>"

text \<open>The log and the trace of calls of \<open>w\<close> are the beginning of those of \<open>w'\<close>.\<close>

definition grows :: "world \<Rightarrow> world \<Rightarrow> bool" where
  "grows w w' \<longleftrightarrow> prefix (logged w) (logged w') \<and> prefix (trace w) (trace w')"

text \<open>
  The world in which the first pass of a cycle starts, when the fetch step reported a
  download and returned \<open>repos\<close>, and the world in which the second pass starts, when
  the first left \<open>w3\<close>.
\<close>

definition before_pass1 :: "env \<Rightarrow> string list \<Rightarrow> world \<Rightarrow> world" where
  "before_pass1 E repos w =
     log (Log ''--- Pass 1: Generating metadata skeletons ---'')
       (copy_resources
          (snd (fetch_fastlane_metadata E repos
                  (log (Log ''New APKs found. Starting Two-Pass Update Process...'')
                     (snd (fetch_apks E (log (Log ''Starting update check...'') w)))))))"

definition before_pass2 :: "env \<Rightarrow> world \<Rightarrow> world" where
  "before_pass2 E w3 =
     log (Log ''--- Pass 2: Building final index ---'') (apply_fastlane_metadata E w3)"

text \<open>
  Two configured repositories. The release of \<^verbatim>\<open>o/a\<close> has the artifact \<^verbatim>\<open>a.apk\<close>,
  which can be downloaded and inspected; that of \<^verbatim>\<open>o/b\<close> has \<^verbatim>\<open>b.apk\<close>, which is in
  the repository directory already. Only \<^verbatim>\<open>o/a\<close> has a title on its \<^verbatim>\<open>main\<close> branch.
  The external tool succeeds.
\<close>

definition demo_env :: env where
  "demo_env = \<lparr>
     api_latest_release = (\<lambda>url.
       if url = ''https://api.github.com/repos/o/a/releases/latest''
       then Inr [\<lparr>asset_name = ''a.apk'', browser_download_url = ''https://example.org/a.apk''\<rparr>]
       else if url = ''https://api.github.com/repos/o/b/releases/latest''
       then Inr [\<lparr>asset_name = ''b.apk'', browser_download_url = ''https://example.org/b.apk''\<rparr>]
       else Inl (HTTPError 404)),
     http_get = (\<lambda>url.
       if url = ''https://example.org/a.apk'' then Inr ''apk''
       else if url = ''https://raw.githubusercontent.com/o/a/main/fastlane/metadata/android/en-US/title.txt''
       then Inr (''My App'' @ [LF])
       else Inl (HTTPError 404)),
     apk_package = (\<lambda>filename. if filename = ''a.apk'' then Inr ''com.example.a'' else Inl APKError),
     yaml_installed = True,
     key_alias = ''release'', keystore_pass = ''secret1'', key_pass = ''secret2'',
     fdroid_update_rc = (\<lambda>sign. 0), fdroid_signindex_rc = 0,
     fdroid_update_writes = (\<lambda>m. m)\<rparr>"

definition two_repo_world :: world where
  "two_repo_world = demo_world\<lparr>repos_json := Repos [''o/a'', ''o/b''], repo_dir := [''b.apk'']\<rparr>"



section \<open>Properties\<close>

subsection \<open>Reading and writing lines\<close>

lemma un_no_CR: "CR \<notin> set (universal_newlines s)"
  by (induction s rule: universal_newlines.induct) auto

lemma un_id: "CR \<notin> set s \<Longrightarrow> universal_newlines s = s"
  by (induction s rule: universal_newlines.induct) auto

lemma un_Cons: "c \<noteq> CR \<Longrightarrow> universal_newlines (c # b) = c # universal_newlines b"
  by (cases b) auto

lemma un_append_LF: "universal_newlines (a @ LF # b) = universal_newlines (a @ [LF]) @ universal_newlines b"
  by (induction a rule: universal_newlines.induct) (auto simp: un_Cons)

lemma un_snoc_LF: "universal_newlines (a @ [LF]) =
   (if a \<noteq> [] \<and> last a = CR then universal_newlines a else universal_newlines a @ [LF])"
  by (induction a rule: universal_newlines.induct) auto

lemma concat_split_lines: "concat (split_lines s) = s"
  by (induction s) (auto split: list.splits)

lemma split_lines_Nil: "split_lines s = [] \<longleftrightarrow> s = []"
  by (cases s) (auto split: list.splits)

lemma split_lines_line: "line_ok l \<Longrightarrow> last l = LF \<Longrightarrow> split_lines (l @ t) = l # split_lines t"
proof (induction l)
  case Nil then show ?case by (simp add: line_ok_def)
next
  case (Cons c l)
  show ?case
  proof (cases "l = []")
    case True with Cons.prems show ?thesis by simp
  next
    case False
    with Cons.prems have "line_ok l" "last l = LF" "c \<noteq> LF" by (auto simp: line_ok_def)
    with Cons.IH show ?thesis by simp
  qed
qed

lemma split_lines_single: "line_ok l \<Longrightarrow> split_lines l = [l]"
proof (induction l)
  case Nil then show ?case by (simp add: line_ok_def)
next
  case (Cons c l)
  show ?case
  proof (cases "l = []")
    case True then show ?thesis by simp
  next
    case False
    with Cons.prems have "line_ok l" "c \<noteq> LF" by (auto simp: line_ok_def)
    with Cons.IH show ?thesis by simp
  qed
qed

lemma split_lines_concat: "lines_ok ls \<Longrightarrow> split_lines (concat ls) = ls"
  by (induction ls rule: lines_ok.induct) (auto simp: split_lines_single split_lines_line)

lemma lines_ok_split_lines: "lines_ok (split_lines s)"
proof (induction s)
  case Nil show ?case by simp
next
  case (Cons c s)
  show ?case
  proof (cases "c = LF")
    case True
    with Cons show ?thesis by (cases "split_lines s") (auto simp: line_ok_def)
  next
    case False
    show ?thesis
    proof (cases "split_lines s")
      case Nil with False show ?thesis by (simp add: line_ok_def)
    next
      case (Cons l ls)
      with Cons.IH False \<open>lines_ok (split_lines s)\<close> show ?thesis
        by (cases ls) (auto simp: line_ok_def)
    qed
  qed
qed

lemma lines_ok_takeWhile: "lines_ok ls \<Longrightarrow> lines_ok (takeWhile P ls)"
  by (induction ls rule: lines_ok.induct) auto

lemma split_lines_append: "x = [] \<or> last x = LF \<Longrightarrow> split_lines (x @ y) = split_lines x @ split_lines y"
proof (induction x)
  case Nil show ?case by simp
next
  case (Cons c x)
  show ?case
  proof (cases "x = []")
    case True with Cons.prems show ?thesis by simp
  next
    case False
    with Cons.prems have "last x = LF" by simp
    with Cons.IH have IH: "split_lines (x @ y) = split_lines x @ split_lines y" by simp
    from False have "split_lines x \<noteq> []" by (simp add: split_lines_Nil)
    with IH show ?thesis by (auto split: list.splits)
  qed
qed

lemma split_lines_snoc_LF:
  "split_lines (y @ [LF]) =
     (if y = [] \<or> last y = LF then split_lines y @ [[LF]]
      else butlast (split_lines y) @ [last (split_lines y) @ [LF]])"
proof (induction y)
  case Nil show ?case by simp
next
  case (Cons c y)
  show ?case
  proof (cases "y = []")
    case True then show ?thesis by simp
  next
    case False
    then have ne: "split_lines y \<noteq> []" "split_lines (y @ [LF]) \<noteq> []" by (simp_all add: split_lines_Nil)
    with Cons.IH False show ?thesis
      by (cases "split_lines y") (auto split: list.splits if_splits simp: butlast_append)
  qed
qed

lemma readlines_rewrite:
  "readlines (concat (takeWhile P (readlines s))) = takeWhile P (readlines s)"
proof -
  let ?ls = "takeWhile P (readlines s)"
  have "set (concat ?ls) \<subseteq> set (concat (readlines s))"
    by (auto dest: set_takeWhileD)
  then have "CR \<notin> set (concat ?ls)"
    using un_no_CR[of s] by (auto simp: readlines_def concat_split_lines)
  then have "universal_newlines (concat ?ls) = concat ?ls" by (rule un_id)
  moreover have "lines_ok ?ls"
    by (simp add: readlines_def lines_ok_takeWhile lines_ok_split_lines)
  ultimately show ?thesis by (simp add: readlines_def split_lines_concat)
qed

lemma marker_in_snoc_LF: "marker_in (l @ [LF]) \<longleftrightarrow> marker_in l"
  by (auto simp: marker_in_def sublist_snoc marker_def suffix_def Cons_eq_append_conv append_eq_Cons_conv)

lemma not_marker_in_LF: "\<not> marker_in [LF]"
  by (simp add: marker_in_def marker_def sublist_Cons_right)





subsection \<open>The clean-up on entry and the keystore block\<close>

lemma readlines_cleanup:
  "readlines (cleanup_leftover content) = takeWhile (\<lambda>line. \<not> marker_in line) (readlines content)"
proof (cases "has_marker (readlines content)")
  case True
  then show ?thesis
    by (simp add: cleanup_leftover_def write_until_marker_def readlines_rewrite)
next
  case False
  then have "takeWhile (\<lambda>line. \<not> marker_in line) (readlines content) = readlines content"
    by (auto simp: has_marker_def takeWhile_eq_all_conv)
  moreover have "cleanup_leftover content = content"
    using False by (simp add: cleanup_leftover_def)
  ultimately show ?thesis by (simp only:)
qed

lemma no_marker_cleanup: "\<not> has_marker (readlines (cleanup_leftover content))"
  by (auto simp: readlines_cleanup has_marker_def dest: set_takeWhileD)

lemma cleanup_idem: "cleanup_leftover (cleanup_leftover content) = cleanup_leftover content"
  using no_marker_cleanup[of content] by (simp add: cleanup_leftover_def[of "cleanup_leftover content"])

lemma lines_snoc_LF:
  assumes "\<forall>l \<in> set (split_lines y). Q l" and "Q [LF]" and "\<And>l. Q l \<Longrightarrow> Q (l @ [LF])"
  shows "\<forall>l \<in> set (split_lines (y @ [LF])). Q l"
proof (cases "y = [] \<or> last y = LF")
  case True
  with assms show ?thesis by (auto simp: split_lines_snoc_LF)
next
  case False
  then have ne: "split_lines y \<noteq> []" by (simp add: split_lines_Nil)
  then have "Q (last (split_lines y))" using assms(1) by simp
  then have "Q (last (split_lines y) @ [LF])" by (rule assms(3))
  moreover have "\<forall>l \<in> set (butlast (split_lines y)). Q l"
    using assms(1) by (auto dest: in_set_butlastD)
  ultimately show ?thesis using False by (auto simp: split_lines_snoc_LF)
qed

lemma readlines_snoc_LF:
  assumes "\<forall>l \<in> set (readlines c). Q l" and "Q [LF]" and "\<And>l. Q l \<Longrightarrow> Q (l @ [LF])"
  shows "\<forall>l \<in> set (readlines (c @ [LF])). Q l"
proof (cases "c \<noteq> [] \<and> last c = CR")
  case True
  with assms(1) show ?thesis by (simp add: readlines_def un_snoc_LF)
next
  case False
  then have "readlines (c @ [LF]) = split_lines (universal_newlines c @ [LF])"
    by (auto simp: readlines_def un_snoc_LF)
  with lines_snoc_LF[of "universal_newlines c" Q] assms show ?thesis
    by (simp add: readlines_def)
qed

lemma marker_in_marker_line: "marker_in marker_line"
proof -
  have "marker_line = ''# '' @ marker @ '' (AUTO-GENERATED) ---'' @ [LF]"
    by (simp add: marker_line_def marker_def)
  then show ?thesis unfolding marker_in_def by (metis sublist_appendI)
qed

lemma marker_line_ok: "line_ok marker_line" "last marker_line = LF" "CR \<notin> set marker_line"
  by (simp_all add: marker_line_def line_ok_def)

lemma keystore_config_split:
  "\<exists>rest. keystore_config a b d = LF # marker_line @ rest"
  unfolding keystore_config_def marker_line_def
  by (rule exI[of _ "''keystore: /app/config/keystore.jks'' @ [LF] @ ''repo_keyalias: '' @ a @ [LF] @
     ''keystorepass: '' @ b @ [LF] @ ''keypass: '' @ d @ [LF]"]) simp

lemma un_marker_line: "universal_newlines (marker_line @ rest) = marker_line @ universal_newlines rest"
proof -
  have ml: "marker_line = butlast marker_line @ [LF]" by (simp add: marker_line_def)
  have "universal_newlines (butlast marker_line @ LF # rest)
        = universal_newlines (butlast marker_line @ [LF]) @ universal_newlines rest"
    by (rule un_append_LF)
  moreover have "universal_newlines marker_line = marker_line"
    by (rule un_id) (rule marker_line_ok)
  ultimately show ?thesis using ml by (metis append.assoc append_Cons append_Nil)
qed

lemma un_snoc_CR: "universal_newlines (a @ [CR]) = universal_newlines a @ [LF]"
  by (induction a rule: universal_newlines.induct) auto

lemma last_un_snoc_LF: "last (universal_newlines (c @ [LF])) = LF"
proof (cases "c \<noteq> [] \<and> last c = CR")
  case True
  then have "c = butlast c @ [CR]" by (metis append_butlast_last_id)
  then have "universal_newlines c = universal_newlines (butlast c @ [CR])" by simp
  also have "\<dots> = universal_newlines (butlast c) @ [LF]"
    by (rule un_snoc_CR)
  finally show ?thesis using True by (simp add: un_snoc_LF)
next
  case False
  then show ?thesis by (auto simp: un_snoc_LF)
qed

lemma readlines_patched:
  "\<exists>rest. readlines (c @ keystore_config a b d) = readlines (c @ [LF]) @ marker_line # rest"
proof -
  obtain rest where kc: "keystore_config a b d = LF # marker_line @ rest"
    using keystore_config_split by blast
  have "universal_newlines (c @ keystore_config a b d)
        = universal_newlines (c @ [LF]) @ marker_line @ universal_newlines rest"
    by (simp only: kc un_append_LF[of c "marker_line @ rest"] un_marker_line)
  then have "readlines (c @ keystore_config a b d)
        = readlines (c @ [LF]) @ marker_line # split_lines (universal_newlines rest)"
    by (simp add: readlines_def split_lines_append split_lines_single marker_line_ok last_un_snoc_LF)
  then show ?thesis by blast
qed

lemma write_until_marker_patched:
  assumes "\<not> has_marker (readlines c)"
  shows "write_until_marker (readlines (c @ keystore_config a b d)) = universal_newlines (c @ [LF])"
proof -
  obtain rest where r: "readlines (c @ keystore_config a b d) = readlines (c @ [LF]) @ marker_line # rest"
    using readlines_patched by blast
  have "\<forall>l \<in> set (readlines (c @ [LF])). \<not> marker_in l"
    using assms by (intro readlines_snoc_LF) (auto simp: has_marker_def not_marker_in_LF marker_in_snoc_LF)
  then have "takeWhile (\<lambda>line. \<not> marker_in line) (readlines (c @ keystore_config a b d)) = readlines (c @ [LF])"
    by (simp add: r takeWhile_append2 marker_in_marker_line)
  then show ?thesis by (simp add: write_until_marker_def readlines_def concat_split_lines)
qed

subsection \<open>What a build invocation leaves in the configuration\<close>

lemma log_fields [simp]:
  "repos_json (log m w) = repos_json w" "repo_dir (log m w) = repo_dir w"
  "map_json (log m w) = map_json w" "staged (log m w) = staged w"
  "metadata (log m w) = metadata w" "assets (log m w) = assets w"
  "config_src (log m w) = config_src w" "config_dst (log m w) = config_dst w"
  "trace (log m w) = trace w" "logged (log m w) = logged w @ [m]"
  by (simp_all add: log_def)

lemma called_fields [simp]:
  "repos_json (called c w) = repos_json w" "repo_dir (called c w) = repo_dir w"
  "map_json (called c w) = map_json w" "staged (called c w) = staged w"
  "metadata (called c w) = metadata w" "assets (called c w) = assets w"
  "config_src (called c w) = config_src w" "config_dst (called c w) = config_dst w"
  "logged (called c w) = logged w" "trace (called c w) = trace w @ [c]"
  by (simp_all add: called_def)

lemma config_dst_build_and_sign: "config_dst (snd (build_and_sign sign E w)) = config_dst w"
  by (simp add: build_and_sign_def subprocess_run_def Let_def)



lemma config_dst_patched_build:
  "config_dst (snd (patched_build sign E content w)) = Some (restored content)"
proof (cases "has_keystore (readlines (cleanup_leftover content))")
  case True
  then show ?thesis
    by (simp add: patched_build_def restored_def Let_def split_beta config_dst_build_and_sign)
next
  case False
  then show ?thesis
    by (simp add: patched_build_def restored_def Let_def split_beta
        write_until_marker_patched no_marker_cleanup)
qed



lemma config_dst_run:
  assumes "config_dst w = Some content \<or> (config_dst w = None \<and> config_src w = Some content)"
  shows "config_dst (snd (run_fdroid_update sign E w)) = Some (restored content)"
  using assms by (auto simp: run_fdroid_update_def Let_def config_dst_patched_build)


text \<open>
  Claim C3. When some line of the configuration document holds the marker, the clean-up
  on entry rewrites the document to exactly the lines before the first such line, and
  cleaning up again changes nothing.
\<close>

theorem cleanup_leftover_truncates:
  assumes "has_marker (readlines content)"
  shows "cleanup_leftover content = concat (takeWhile (\<lambda>line. \<not> marker_in line) (readlines content))
       \<and> readlines (cleanup_leftover content) = takeWhile (\<lambda>line. \<not> marker_in line) (readlines content)
       \<and> cleanup_leftover (cleanup_leftover content) = cleanup_leftover content"
  using assms by (simp add: readlines_cleanup cleanup_idem) (simp add: cleanup_leftover_def write_until_marker_def)

lemma demo_lines: "readlines demo_config = [demo_config]"
  by (simp add: readlines_def demo_config_def)

lemma demo_no_marker: "\<not> marker_in demo_config"
  by (simp add: marker_in_def demo_config_def marker_def sublist_Cons_right)

lemma demo_no_keystore: "\<not> keystore_line demo_config"
  by (simp add: keystore_line_def demo_config_def strip_def is_space_def)

text \<open>
  Claim C1 does not hold on the code: a build invocation on a document without keystore
  settings leaves the document with one more \<^verbatim>\<open>\n\<close> at its end, since the block that
  is appended starts with \<^verbatim>\<open>\n\<close> and the rewrite on exit stops only at the marker line.
  This is so for either value of \<open>sign\<close> and for every outcome of the external tool.
\<close>

theorem demo_config_grows:
  "config_dst (snd (run_fdroid_update sign E demo_world)) = Some (demo_config @ [LF])"
proof -
  have "cleanup_leftover demo_config = demo_config"
    by (simp add: cleanup_leftover_def demo_lines has_marker_def demo_no_marker)
  then have "restored demo_config = universal_newlines (demo_config @ [LF])"
    by (simp add: restored_def demo_lines has_keystore_def demo_no_keystore)
  also have "\<dots> = demo_config @ [LF]" by (simp add: demo_config_def)
  finally show ?thesis
    using config_dst_run[of demo_world demo_config sign E] by (simp add: demo_world_def)
qed

lemma crashed_has_marker: "has_marker (readlines crashed_config)"
proof -
  obtain rest where "readlines crashed_config = readlines (demo_config @ [LF]) @ marker_line # rest"
    unfolding crashed_config_def using readlines_patched by blast
  then show ?thesis by (simp add: has_marker_def marker_in_marker_line)
qed

lemma crashed_cleanup: "cleanup_leftover crashed_config = demo_config @ [LF]"
proof -
  have "\<not> has_marker (readlines demo_config)"
    by (simp add: demo_lines has_marker_def demo_no_marker)
  then have "write_until_marker (readlines crashed_config) = universal_newlines (demo_config @ [LF])"
    unfolding crashed_config_def by (rule write_until_marker_patched)
  also have "\<dots> = demo_config @ [LF]" by (simp add: demo_config_def)
  finally show ?thesis using crashed_has_marker by (simp add: cleanup_leftover_def)
qed

theorem cleanup_leftover_truncates_witness:
  "has_marker (readlines crashed_config)
   \<and> cleanup_leftover crashed_config = demo_config @ [LF]
   \<and> cleanup_leftover crashed_config = concat (takeWhile (\<lambda>line. \<not> marker_in line) (readlines crashed_config))
   \<and> readlines (cleanup_leftover crashed_config) = takeWhile (\<lambda>line. \<not> marker_in line) (readlines crashed_config)
   \<and> cleanup_leftover (cleanup_leftover crashed_config) = cleanup_leftover crashed_config"
  using cleanup_leftover_truncates[OF crashed_has_marker] crashed_has_marker crashed_cleanup by blast


subsection \<open>\<^verbatim>\<open>fetch_apks\<close>: what it leaves alone\<close>












subsection \<open>\<^verbatim>\<open>fetch_apks\<close>: entries of the mapping\<close>

lemma map_asset_keeps:
  "map_of m s = Some P \<Longrightarrow> map_of (fst (map_asset E repo filename m w)) s = Some P"
proof -
  assume a: "map_of m s = Some P"
  then have "(s, P) \<in> set m" by (rule map_of_SomeD)
  then have "s \<in> fst ` set m" by force
  with a show ?thesis
    by (auto simp: map_asset_def update_conv' split: sum.splits)
qed

lemma fetch_asset_keeps:
  "map_of m s = Some P \<Longrightarrow> map_of (fst (snd (snd (fetch_asset E repo a (d, m, w))))) s = Some P"
proof (cases "suffix ''.apk'' (asset_name a)")
  case False assume "map_of m s = Some P" with False show ?thesis by simp
next
  case True
  assume a: "map_of m s = Some P"
  obtain r d1 w1 where dl: "download_asset E (asset_name a) (browser_download_url a) d w = (r, d1, w1)"
    by (metis prod_cases3)
  show ?thesis
  proof (cases r)
    case (Some e) with True dl a show ?thesis by (simp add: Let_def)
  next
    case None
    obtain m1 w2 where ma: "map_asset E repo (asset_name a) m w1 = (m1, w2)" by (metis prod.exhaust)
    then have "map_of m1 s = Some P" using map_asset_keeps[OF a, of E repo "asset_name a" w1] by simp
    with True dl None ma show ?thesis by (simp add: Let_def)
  qed
qed

lemma for_each_keeps:
  "map_of m s = Some P \<Longrightarrow>
   map_of (fst (snd (snd (for_each (fetch_asset E repo) found (d, m, w))))) s = Some P"
proof (induction found arbitrary: d m w)
  case Nil then show ?case by simp
next
  case (Cons a found)
  obtain r d1 m1 w1 where st: "fetch_asset E repo a (d, m, w) = (r, d1, m1, w1)" by (metis prod_cases4)
  then have k: "map_of m1 s = Some P" using fetch_asset_keeps[OF Cons.prems, of E repo a d w] by simp
  show ?case
  proof (cases r)
    case None with st Cons.IH[OF k] show ?thesis by simp
  next
    case (Some e) with st k show ?thesis by simp
  qed
qed

lemma check_repo_keeps:
  "map_of m s = Some P \<Longrightarrow> map_of (fst (snd (check_repo E repo (d, m, w)))) s = Some P"
proof -
  assume a: "map_of m s = Some P"
  let ?w1 = "log (Log (''Checking '' @ repo @ ''...'')) w"
  show ?thesis
  proof (cases "api_latest_release E (''https://api.github.com/repos/'' @ repo @ ''/releases/latest'')")
    case (Inl e) with a show ?thesis by (simp add: Let_def)
  next
    case (Inr found)
    obtain r d1 m1 w1 where st: "for_each (fetch_asset E repo) found (d, m, ?w1) = (r, d1, m1, w1)"
      by (metis prod_cases4)
    then have "map_of m1 s = Some P" using for_each_keeps[OF a, of E repo found d ?w1] by simp
    with Inr st show ?thesis by (cases r) (simp_all add: Let_def)
  qed
qed

lemma fold_check_repo_keeps:
  "map_of m s = Some P \<Longrightarrow> map_of (fst (snd (fold (check_repo E) repos (d, m, w)))) s = Some P"
proof (induction repos arbitrary: d m w)
  case Nil then show ?case by simp
next
  case (Cons r repos)
  obtain d1 m1 w1 where st: "check_repo E r (d, m, w) = (d1, m1, w1)" by (metis prod_cases3)
  then have "map_of m1 s = Some P" using check_repo_keeps[OF Cons.prems, of E r d w] by simp
  from Cons.IH[OF this] st show ?case by simp
qed

lemma fetch_apks_keeps:
  assumes "map_json w = Holds m" and "map_of m s = Some P"
  shows "\<exists>m'. map_json (snd (fetch_apks E w)) = Holds m' \<and> map_of m' s = Some P"
proof (cases "repos_json w")
  case Repos_absent with assms show ?thesis by (simp add: fetch_apks_def Let_def)
next
  case Repos_invalid with assms show ?thesis by (simp add: fetch_apks_def Let_def)
next
  case (Repos repos)
  let ?w = "called Call_fetch_apks w"
  obtain d1 m1 w1 where st: "fold (check_repo E) repos (False, m, ?w) = (d1, m1, w1)" by (metis prod_cases3)
  then have "map_of m1 s = Some P" using fold_check_repo_keeps[OF assms(2), of E repos False ?w] by simp
  with Repos assms(1) st show ?thesis by (simp add: fetch_apks_def Let_def load_map_def save_map_def)
qed

text \<open>
  Claim C9, as the code has it. When the mapping file holds a complete document in which
  a source is mapped to \<open>P\<close>, a run of \<^verbatim>\<open>fetch_apks\<close> leaves a complete document in
  which the source is still mapped to \<open>P\<close>, whatever the release host answers and whatever
  the inspection of a fresh artifact gives. (A file that is absent or that
  \<^verbatim>\<open>json.load\<close> rejects makes the run start from the empty mapping, which is then
  written over the file.)
\<close>

theorem mapped_source_kept:
  assumes "map_json w = Holds m" and "map_of m source = Some P"
  shows "\<exists>m'. map_json (snd (fetch_apks E w)) = Holds m' \<and> map_of m' source = Some P"
  using assms by (rule fetch_apks_keeps)

text \<open>
  The claim as stated fails for a mapping file that cannot be parsed at load time: the
  entry that the text of the file still holds is gone after the run.
\<close>

theorem cut_off_mapping_lost:
  "map_of (persisted (map_json cut_world)) ''o/a'' = Some ''com.example.app''
   \<and> map_of (persisted (map_json (snd (fetch_apks failing_env cut_world)))) ''o/a'' = None"
  by (simp add: cut_world_def demo_world_def persisted_def fetch_apks_def failing_env_def
      load_map_def save_map_def fetch_failed_def called_def log_def Let_def)

theorem mapped_source_kept_witness:
  "map_json (cut_world\<lparr>map_json := Holds [(''o/a'', ''com.example.app'')]\<rparr>) = Holds [(''o/a'', ''com.example.app'')]
   \<and> map_of [(''o/a'', ''com.example.app'')] ''o/a'' = Some ''com.example.app''
   \<and> (\<exists>m'. map_json (snd (fetch_apks failing_env
                (cut_world\<lparr>map_json := Holds [(''o/a'', ''com.example.app'')]\<rparr>))) = Holds m'
         \<and> map_of m' ''o/a'' = Some ''com.example.app'')"
  using mapped_source_kept[of "cut_world\<lparr>map_json := Holds [(''o/a'', ''com.example.app'')]\<rparr>"
      "[(''o/a'', ''com.example.app'')]" "''o/a''" "''com.example.app''" failing_env]
  by simp

subsection \<open>\<^verbatim>\<open>fetch_fastlane_metadata\<close>\<close>

lemma hf_refl: "harvest_frame w w" by (simp add: harvest_frame_def)

lemma hf_trans: "harvest_frame a b \<Longrightarrow> harvest_frame b c \<Longrightarrow> harvest_frame a c"
  unfolding harvest_frame_def by (cases a, cases b, cases c) (auto intro: prefix_order.trans)

lemma hf_log: "harvest_frame w (log m w)"
  unfolding harvest_frame_def log_def by (cases w) simp

lemma hf_write: "harvest_frame w (write_staged dir path content w)"
  unfolding harvest_frame_def write_staged_def by (cases w) simp

lemma hf_mkdir: "harvest_frame w (mkdir_staged dir w)"
  unfolding harvest_frame_def mkdir_staged_def by (cases w) simp


lemma hf_logged: "harvest_frame w w' \<Longrightarrow> m \<in> set (logged w) \<Longrightarrow> m \<in> set (logged w')"
  unfolding harvest_frame_def by (auto dest: set_mono_prefix)

lemma hf_fetch_basic: "harvest_frame w (fetch_basic E dir title item w)"
  by (cases item) (auto split: sum.splits intro: hf_refl hf_trans[OF hf_write hf_log])

lemma hf_fold_basic: "harvest_frame w (fold (fetch_basic E dir title) items w)"
proof (induction items arbitrary: w)
  case Nil show ?case by (simp add: hf_refl)
next
  case (Cons i items)
  show ?case using hf_trans[OF hf_fetch_basic Cons.IH] by simp
qed

lemma hf_screenshots: "harvest_frame w (fetch_screenshots E dir base is w)"
proof (induction "is" arbitrary: w)
  case Nil show ?case by (simp add: hf_refl)
next
  case (Cons i rest)
  show ?case
    by (auto split: sum.splits intro: hf_refl hf_trans[OF hf_trans[OF hf_write hf_log] Cons.IH])
qed

lemma hf_stage: "harvest_frame w (stage_bundle E owner repo_name branch base title w)"
proof -
  let ?w1 = "log (Log (''  Found fastlane metadata on '' @ branch @ '' branch'')) w"
  let ?dir = "''.temp_metadata_'' @ owner @ ''_'' @ repo_name"
  let ?w2 = "mkdir_staged ?dir ?w1"
  have "harvest_frame w ?w2" by (rule hf_trans[OF hf_log hf_mkdir])
  then show ?thesis
    unfolding stage_bundle_def Let_def
    by (rule hf_trans[OF _ hf_trans[OF hf_fold_basic hf_screenshots]])
qed

lemma hf_branches: "harvest_frame w (try_branches E owner repo_name branches w)"
proof (induction branches arbitrary: w)
  case Nil show ?case by (simp add: hf_log)
next
  case (Cons b rest)
  let ?url = "''https://raw.githubusercontent.com/'' @ owner @ ''/'' @ repo_name @ ''/''
                @ b @ ''/fastlane/metadata/android/en-US'' @ ''/title.txt''"
  show ?case
  proof (cases "http_get E ?url")
    case (Inr body)
    then show ?thesis by (simp add: Let_def hf_stage)
  next
    case (Inl e)
    have "harvest_frame w (try_branches E owner repo_name rest (log m w))" for m
      by (rule hf_trans[OF hf_log Cons.IH])
    with Inl Cons.IH show ?thesis by (cases e) (simp_all add: Let_def)
  qed
qed

lemma hf_harvest_repo: "harvest_frame w (snd (harvest_repo E repo w))"
  unfolding harvest_repo_def Let_def
  by (auto split: list.splits simp del: try_branches.simps intro: hf_log hf_trans[OF hf_log hf_branches])

lemma harvest_repo_logs:
  "Log (''Fetching metadata for '' @ repo @ ''...'') \<in> set (logged (snd (harvest_repo E repo w)))"
proof -
  let ?w1 = "log (Log (''Fetching metadata for '' @ repo @ ''...'')) w"
  have "harvest_frame ?w1 (snd (harvest_repo E repo w))"
    unfolding harvest_repo_def Let_def
    by (auto split: list.splits simp del: try_branches.simps intro: hf_refl hf_branches)
  moreover have "Log (''Fetching metadata for '' @ repo @ ''...'') \<in> set (logged ?w1)" by simp
  ultimately show ?thesis by (rule hf_logged)
qed

lemma hf_for_each: "harvest_frame w (snd (for_each (harvest_repo E) repos w))"
proof (induction repos arbitrary: w)
  case Nil show ?case by (simp add: hf_refl)
next
  case (Cons r repos)
  obtain x w1 where st: "harvest_repo E r w = (x, w1)" by (metis prod.exhaust)
  then have f: "harvest_frame w w1" using hf_harvest_repo[of w E r] by simp
  show ?case
  proof (cases x)
    case None with st hf_trans[OF f Cons.IH] show ?thesis by simp
  next
    case (Some e) with st f show ?thesis by simp
  qed
qed

lemma harvest_repo_ok: "well_formed repo \<Longrightarrow> fst (harvest_repo E repo w) = None"
  unfolding harvest_repo_def well_formed_def Let_def
  by (auto split: list.splits)

lemma harvest_repo_raises: "\<not> well_formed repo \<Longrightarrow> fst (harvest_repo E repo w) = Some ValueError"
  unfolding harvest_repo_def well_formed_def Let_def
  by (auto split: list.splits)

lemma for_each_harvest_all:
  "\<forall>r \<in> set repos. well_formed r \<Longrightarrow>
   fst (for_each (harvest_repo E) repos w) = None \<and>
   (\<forall>r \<in> set repos. Log (''Fetching metadata for '' @ r @ ''...'')
        \<in> set (logged (snd (for_each (harvest_repo E) repos w))))"
proof (induction repos arbitrary: w)
  case Nil show ?case by simp
next
  case (Cons r repos)
  obtain x w1 where st: "harvest_repo E r w = (x, w1)" by (metis prod.exhaust)
  have wf: "well_formed r" and rest: "\<forall>r \<in> set repos. well_formed r" using Cons.prems by simp_all
  from st harvest_repo_ok[OF wf, of E w] have x: "x = None" by simp
  have "Log (''Fetching metadata for '' @ r @ ''...'') \<in> set (logged w1)"
    using harvest_repo_logs[of r E w] st by simp
  then have "Log (''Fetching metadata for '' @ r @ ''...'') \<in> set (logged (snd (for_each (harvest_repo E) repos w1)))"
    by (rule hf_logged[OF hf_for_each])
  with Cons.IH[OF rest, of w1] st x show ?case by simp
qed

subsection \<open>The build pass and the reconciliation: what they leave alone\<close>

lemma af_refl: "apply_frame w w" by (simp add: apply_frame_def)

lemma af_trans: "apply_frame a b \<Longrightarrow> apply_frame b c \<Longrightarrow> apply_frame a c"
  unfolding apply_frame_def by (cases a, cases b, cases c) simp

lemma af_log: "apply_frame w (log m w)"
  unfolding apply_frame_def log_def by (cases w) simp

lemma af_fields:
  assumes "apply_frame w w'"
  shows "config_dst w' = config_dst w" "config_src w' = config_src w" "trace w' = trace w"
    "repo_dir w' = repo_dir w" "staged w' = staged w" "map_json w' = map_json w"
    "repos_json w' = repos_json w"
  using assms unfolding apply_frame_def by (cases w, cases w', simp)+

lemma af_process_bundle: "apply_frame w (process_bundle m bundle w)"
proof -
  obtain dir fs where b: "bundle = (dir, fs)" by (metis prod.exhaust)
  show ?thesis unfolding b
    by (auto simp: Let_def apply_frame_def log_def copy_assets_def split: option.splits sum.splits)
qed

lemma af_fold: "apply_frame w (fold (process_bundle m) bundles w)"
proof (induction bundles arbitrary: w)
  case Nil show ?case by (simp add: af_refl)
next
  case (Cons b bundles)
  show ?case using af_trans[OF af_process_bundle Cons.IH] by simp
qed

lemma apply_fields:
  "config_dst (apply_fastlane_metadata E w) = config_dst w"
  "config_src (apply_fastlane_metadata E w) = config_src w"
  "trace (apply_fastlane_metadata E w) = trace w @ [Call_apply_fastlane_metadata]"
  "map_json (apply_fastlane_metadata E w) = map_json w"
  "repo_dir (apply_fastlane_metadata E w) = repo_dir w"
  "staged (apply_fastlane_metadata E w) = (if yaml_installed E then [] else staged w)"
  using af_fields[OF af_fold, of "load_map (map_json w)" "staged w" "called Call_apply_fastlane_metadata w"]
  by (simp_all add: apply_fastlane_metadata_def Let_def)





lemma run_missing_config:
  "config_dst w = None \<Longrightarrow> config_src w = None \<Longrightarrow>
   run_fdroid_update sign E w =
     (None, log (Log ''ERROR: config.yml not found, cannot proceed with update'')
              (called (Call_run_fdroid_update sign) w))"
  by (simp add: run_fdroid_update_def Let_def)




lemma fetch_apks_repos:
  "fst (fetch_apks E w) = Inr (d, rs) \<Longrightarrow> repos_json w = Repos repos \<Longrightarrow> rs = repos"
  by (simp add: fetch_apks_def Let_def split_beta)


lemma grows_refl: "grows w w" by (simp add: grows_def)

lemma grows_trans: "grows a b \<Longrightarrow> grows b c \<Longrightarrow> grows a c"
  unfolding grows_def by (auto intro: prefix_order.trans)

lemma grows_log: "grows w (log m w)" by (simp add: grows_def)

lemma grows_called: "grows w (called c w)" by (simp add: grows_def)


lemma grows_build_and_sign: "grows w (snd (build_and_sign sign E w))"
  by (cases sign; simp add: build_and_sign_def subprocess_run_def Let_def grows_def log_def called_def)

lemma grows_patched_build: "grows w (snd (patched_build sign E content w))"
  by (cases sign; simp add: patched_build_def build_and_sign_def subprocess_run_def Let_def
        split_beta grows_def log_def called_def)

lemma run_present:
  "config_dst w = Some content \<Longrightarrow>
   run_fdroid_update sign E w = patched_build sign E content (called (Call_run_fdroid_update sign) w)"
  by (simp add: run_fdroid_update_def Let_def)

lemma run_copied:
  "config_dst w = None \<Longrightarrow> config_src w = Some content \<Longrightarrow>
   run_fdroid_update sign E w =
     patched_build sign E content ((called (Call_run_fdroid_update sign) w)\<lparr>config_dst := Some content\<rparr>)"
  by (simp add: run_fdroid_update_def Let_def)

lemma grows_config: "grows w (w\<lparr>config_dst := c\<rparr>)" by (simp add: grows_def)

lemma grows_run: "grows w (snd (run_fdroid_update sign E w))"
proof (cases "config_dst w")
  case (Some content)
  then show ?thesis
    by (simp add: run_present grows_trans[OF grows_called grows_patched_build])
next
  case None
  show ?thesis
  proof (cases "config_src w")
    case (Some content)
    with None show ?thesis
      by (simp add: run_copied grows_trans[OF grows_called grows_trans[OF grows_config grows_patched_build]])
  next
    case n: None
    with None show ?thesis
      by (simp add: run_missing_config grows_trans[OF grows_called grows_log])
  qed
qed

lemma apply_frame_grows_fold:
  "prefix (logged w) (logged (fold (process_bundle m) bundles w))"
proof (induction bundles arbitrary: w)
  case Nil show ?case by simp
next
  case (Cons b bundles)
  obtain dir fs where b: "b = (dir, fs)" by (metis prod.exhaust)
  have "prefix (logged w) (logged (process_bundle m b w))"
    unfolding b by (auto simp: Let_def copy_assets_def split: option.splits sum.splits)
  then show ?case using Cons.IH[of "process_bundle m b w"] by (auto intro: prefix_order.trans)
qed

lemma grows_apply: "grows w (apply_fastlane_metadata E w)"
  using apply_frame_grows_fold[of "called Call_apply_fastlane_metadata w" "load_map (map_json w)" "staged w"]
  by (simp add: grows_def apply_fields) (simp add: apply_fastlane_metadata_def Let_def)

subsection \<open>One cycle\<close>

lemma suffix_apk: "suffix ''.apk'' ''a.apk''" "suffix ''.apk'' ''b.apk''"
  by (simp_all add: suffix_def)

lemma demo_fetch:
  "fst (fetch_apks demo_env (log m two_repo_world)) = Inr (True, [''o/a'', ''o/b''])"
  by (simp add: fetch_apks_def two_repo_world_def demo_world_def demo_env_def Let_def
      load_map_def download_asset_def map_asset_def suffix_apk log_def called_def split_beta)

lemma demo_fetch_map:
  "map_json (snd (fetch_apks demo_env (log m two_repo_world))) = Holds [(''o/a'', ''com.example.a'')]"
  by (simp add: fetch_apks_def two_repo_world_def demo_world_def demo_env_def Let_def
      load_map_def save_map_def download_asset_def map_asset_def suffix_apk log_def called_def split_beta)




lemma harvest_all:
  assumes "\<forall>r \<in> set repos. well_formed r"
  shows "fst (fetch_fastlane_metadata E repos w) = None"
    and "\<forall>r \<in> set repos. Log (''Fetching metadata for '' @ r @ ''...'')
           \<in> set (logged (snd (fetch_fastlane_metadata E repos w)))"
  using for_each_harvest_all[OF assms, of E "called (Call_fetch_fastlane_metadata repos) w"]
  by (simp_all add: fetch_fastlane_metadata_def)

lemma update_check_downloaded:
  assumes "fst (fetch_apks E (log (Log ''Starting update check...'') w)) = Inr (True, repos)"
    and "\<forall>r \<in> set repos. well_formed r"
  shows "update_check E w =
     (case run_fdroid_update False E (before_pass1 E repos w) of
        (Some e, w3) \<Rightarrow> (Some e, w3)
      | (None, w3) \<Rightarrow>
          (case run_fdroid_update True E (before_pass2 E w3) of
             (Some e, w4) \<Rightarrow> (Some e, w4)
           | (None, w4) \<Rightarrow> (None, log (Log ''Update check complete.'') w4)))"
proof -
  let ?f = "fetch_apks E (log (Log ''Starting update check...'') w)"
  let ?h = "fetch_fastlane_metadata E repos
              (log (Log ''New APKs found. Starting Two-Pass Update Process...'') (snd ?f))"
  have f: "?f = (Inr (True, repos), snd ?f)" using assms(1) by (metis prod.collapse)
  have "fst ?h = None" by (rule harvest_all[OF assms(2)])
  then have h: "?h = (None, snd ?h)" by (metis prod.collapse)
  show ?thesis
    unfolding update_check_def before_pass1_def before_pass2_def
    by (subst f, simp only: prod.case sum.case if_True, subst h, simp only: prod.case option.case)
qed

lemma update_check_idle:
  assumes "fst (fetch_apks E (log (Log ''Starting update check...'') w)) = Inr (False, repos)"
  shows "update_check E w =
     (None, log (Log ''Update check complete.'') (log (Log ''No new APKs found.'')
              (snd (fetch_apks E (log (Log ''Starting update check...'') w)))))"
proof -
  let ?f = "fetch_apks E (log (Log ''Starting update check...'') w)"
  have f: "?f = (Inr (False, repos), snd ?f)" using assms(1) by (metis prod.collapse)
  show ?thesis unfolding update_check_def by (subst f) simp
qed

lemma iteration_fields:
  "trace (snd (iteration E poll w)) = trace (snd (update_check E w)) @ [Time_sleep poll]"
  "config_dst (snd (iteration E poll w)) = config_dst (snd (update_check E w))"
  "staged (snd (iteration E poll w)) = staged (snd (update_check E w))"
  "fst (iteration E poll w) = (if poll < 0 then Some ValueError else None)"
  by (simp_all add: iteration_def time_sleep_def Let_def split_beta split: option.splits)



lemma main_loop_returns:
  assumes "main_loop envs poll k w = Some y"
  shows "poll < 0"
proof (rule main_loop.raw_induct[where P = "\<lambda>envs poll k w y. poll < 0", OF _ assms])
  fix loop :: "(nat \<Rightarrow> env) \<Rightarrow> int \<Rightarrow> nat \<Rightarrow> world \<Rightarrow> (exn \<times> world) option"
  fix envs poll k w y
  assume IH: "\<And>envs poll k w y. loop envs poll k w = Some y \<Longrightarrow> poll < 0"
    and step: "(case iteration (envs k) poll w of
                  (None, w') \<Rightarrow> loop envs poll (Suc k) w'
                | (Some e, w') \<Rightarrow> Some (e, w')) = Some y"
  show "poll < 0"
  proof (cases "fst (iteration (envs k) poll w)")
    case None
    with step have "loop envs poll (Suc k) (snd (iteration (envs k) poll w)) = Some y"
      by (simp add: split_beta)
    then show ?thesis by (rule IH)
  next
    case (Some e)
    then show ?thesis by (simp add: iteration_fields split: if_splits)
  qed
qed

lemma main_loop_never_returns: "0 \<le> poll \<Longrightarrow> main_loop envs poll k w = None"
  using main_loop_returns[of envs poll k w] by (cases "main_loop envs poll k w") auto

lemma case_raised:
  "fst r = Some e \<Longrightarrow>
   (case r of (Some e, w) \<Rightarrow> f e w | (None, w) \<Rightarrow> g w) = f e (snd r)"
  by (cases r) simp

lemma case_returned:
  "fst r = None \<Longrightarrow>
   (case r of (Some e, w) \<Rightarrow> f e w | (None, w) \<Rightarrow> g w) = g (snd r)"
  by (cases r) simp

lemma update_check_grows:
  assumes "fst (fetch_apks E (log (Log ''Starting update check...'') w)) = Inr (True, repos)"
    and "\<forall>r \<in> set repos. well_formed r"
  shows "grows (before_pass1 E repos w) (snd (update_check E w))"
proof -
  let ?r1 = "run_fdroid_update False E (before_pass1 E repos w)"
  let ?r2 = "run_fdroid_update True E (before_pass2 E (snd ?r1))"
  have g1: "grows (before_pass1 E repos w) (snd ?r1)" by (rule grows_run)
  have g2: "grows (snd ?r1) (snd ?r2)"
    unfolding before_pass2_def
    by (rule grows_trans[OF grows_apply grows_trans[OF grows_log grows_run]])
  have g12: "grows (before_pass1 E repos w) (snd ?r2)" by (rule grows_trans[OF g1 g2])
  have g3: "grows (before_pass1 E repos w) (log (Log ''Update check complete.'') (snd ?r2))"
    by (rule grows_trans[OF g12 grows_log])
  show ?thesis
  proof (cases "fst ?r1")
    case (Some e)
    have "update_check E w = (Some e, snd ?r1)"
      unfolding update_check_downloaded[OF assms] by (simp only: case_raised[OF Some])
    with g1 show ?thesis by simp
  next
    case None
    note n1 = None
    show ?thesis
    proof (cases "fst ?r2")
      case (Some e)
      have "update_check E w = (Some e, snd ?r2)"
        unfolding update_check_downloaded[OF assms]
        by (simp only: case_returned[OF n1] case_raised[OF Some])
      with g12 show ?thesis by simp
    next
      case None
      have "update_check E w = (None, log (Log ''Update check complete.'') (snd ?r2))"
        unfolding update_check_downloaded[OF assms]
        by (simp only: case_returned[OF n1] case_returned[OF None])
      with g3 show ?thesis by simp
    qed
  qed
qed

lemma before_pass1_logged:
  assumes "\<forall>r \<in> set repos. well_formed r"
  shows "\<forall>r \<in> set repos. Log (''Fetching metadata for '' @ r @ ''...'')
           \<in> set (logged (before_pass1 E repos w))"
  using harvest_all(2)[OF assms] by (simp add: before_pass1_def copy_resources_def)











subsection \<open>The example cycle: what the harvest stages\<close>




lemma staged_write:
  "staged (write_staged dir path content w) =
     AList.update dir (AList.update path content (files_of dir w)) (staged w)"
  by (simp add: write_staged_def)











end
